theory Spec2Isabelle
  imports Main
begin

section \<open>go-string-pager: the data model\<close>

text \<open>
  The package \<^verbatim>\<open>page\<close> has two source files: \<^verbatim>\<open>pager.go\<close> (the type
  \<^verbatim>\<open>Pager[T]\<close>, \<^verbatim>\<open>New\<close>, \<^verbatim>\<open>Next\<close>, \<^verbatim>\<open>All\<close>, \<^verbatim>\<open>IsAllLoaded\<close>) and
  \<^verbatim>\<open>options.go\<close> (the three functional options).

  Go errors are values with a message; \<^verbatim>\<open>fmt.Errorf\<close> with the verb \<^verbatim>\<open>%w\<close> builds an
  error that carries its own message and the wrapped cause.
\<close>

datatype error = ErrorString string | WrapError string error

fun Error :: "error \<Rightarrow> string" where
  "Error (ErrorString s) = s"
| "Error (WrapError s cause) = s"

fun Unwrap :: "error \<Rightarrow> error option" where
  "Unwrap (ErrorString s) = None"
| "Unwrap (WrapError s cause) = Some cause"

text \<open>\<^verbatim>\<open>fmt.Errorf(msg)\<close> with no verb in \<^verbatim>\<open>msg\<close>.\<close>

definition Errorf :: "string \<Rightarrow> error" where
  "Errorf msg = ErrorString msg"

text \<open>\<^verbatim>\<open>fmt.Errorf("page %s: %w", key, err)\<close>.\<close>

definition Errorf_page :: "string \<Rightarrow> error \<Rightarrow> error" where
  "Errorf_page key err = WrapError (''page '' @ key @ '': '' @ Error err) err"

text \<open>
  A Go slice is either \<^verbatim>\<open>nil\<close> or holds a sequence of elements; \<^verbatim>\<open>append(s, t...)\<close>
  returns \<^verbatim>\<open>s\<close> itself when \<^verbatim>\<open>t\<close> has no element.
\<close>

datatype 'a slice = NilSlice | Slice "'a list"

fun elems :: "'a slice \<Rightarrow> 'a list" where
  "elems NilSlice = []"
| "elems (Slice xs) = xs"

definition append_slice :: "'a slice \<Rightarrow> 'a slice \<Rightarrow> 'a slice" where
  "append_slice s t = (if elems t = [] then s else Slice (elems s @ elems t))"

datatype panic = NilPointerDereference | MakesliceCapOutOfRange

text \<open>
  \<^verbatim>\<open>make([]T, 0, n)\<close> is the runtime's \<^verbatim>\<open>makeslice\<close>: it panics with "makeslice: cap out
  of range" when \<^verbatim>\<open>n\<close> is negative and when \<^verbatim>\<open>n\<close> elements of type \<^verbatim>\<open>T\<close> take more
  bytes than the runtime's allocation limit \<^verbatim>\<open>maxAlloc\<close> (a product that overflows the
  machine word is beyond that limit). The size of an element and the limit belong to
  the element type and the platform, not to this package, so they are parameters.
  Within the limit the capacity is only an allocation hint; an allocation that fails
  for lack of memory is outside the model.
\<close>

record go_runtime =
  elemSize :: int
  maxAlloc :: int

definition make_slice :: "go_runtime \<Rightarrow> int \<Rightarrow> panic + 'a slice" where
  "make_slice rt n =
     (if n < 0 \<or> maxAlloc rt < elemSize rt * n then Inl MakesliceCapOutOfRange
      else Inr (Slice []))"

text \<open>
  \<^verbatim>\<open>Loader[T].Load(ctx, pageKey, pageSize)\<close> returns \<^verbatim>\<open>(page, nextPageKey, err)\<close>. The
  loader is caller-supplied and may keep state of its own between calls, so a loader is
  a function that also takes and returns the loader's state \<open>'l\<close>. The context \<open>'c\<close> is
  opaque to the pager. A call of the loader is taken to return, and not to call back
  into the pager it serves.
\<close>

type_synonym ('c, 'l, 'a) Loader =
  "'c \<Rightarrow> string \<Rightarrow> int \<Rightarrow> 'l \<Rightarrow> ('a slice \<times> string \<times> error option) \<times> 'l"

text \<open>
  The struct \<^verbatim>\<open>Pager[T]\<close>. The interface value \<^verbatim>\<open>nextPageLoader\<close> may be \<^verbatim>\<open>nil\<close>
  (\<open>None\<close>); \<^verbatim>\<open>isFirstPageLoadedOnce\<close> is a \<^verbatim>\<open>sync.Once\<close>, of which only the fact
  whether it has fired matters. The page size is a Go \<^verbatim>\<open>int\<close>; the code only compares
  it with 0 and hands it on, so every machine integer is an \<open>int\<close> here and no
  wrap-around arises.
\<close>

record ('c, 'l, 'a) Pager =
  pageSize :: int
  nextPageKey :: string
  nextPageLoader :: "('c, 'l, 'a) Loader option"
  isFirstPageLoaded :: bool
  isFirstPageLoadedOnce :: bool

definition defaultPageSize :: int where
  "defaultPageSize = 100"

section \<open>Options and construction\<close>

text \<open>
  \<^verbatim>\<open>type Option[T any] func(*Pager[T]) error\<close>: an option updates the pager or returns
  an error; \<^verbatim>\<open>New\<close> drops the pager as soon as an option returns an error.
\<close>

type_synonym ('c, 'l, 'a) Option = "('c, 'l, 'a) Pager \<Rightarrow> error + ('c, 'l, 'a) Pager"

definition WithNextPageKey :: "string \<Rightarrow> ('c, 'l, 'a) Option" where
  "WithNextPageKey key p =
     (if key = '''' then Inl (Errorf ''next page key must not be empty'')
      else Inr (p\<lparr>nextPageKey := key\<rparr>))"

definition WithPageSize :: "int \<Rightarrow> ('c, 'l, 'a) Option" where
  "WithPageSize pageSize' p =
     (if pageSize' \<le> 0 then Inl (Errorf ''page size must be positive'')
      else Inr (p\<lparr>pageSize := pageSize'\<rparr>))"

definition WithNextPageLoader :: "('c, 'l, 'a) Loader option \<Rightarrow> ('c, 'l, 'a) Option" where
  "WithNextPageLoader loader p =
     (if loader = None then Inl (Errorf ''next page loader is required'')
      else Inr (p\<lparr>nextPageLoader := loader\<rparr>))"

text \<open>The pager literal at the start of \<^verbatim>\<open>New\<close>; unnamed fields have their zero value.\<close>

definition initial_pager :: "('c, 'l, 'a) Pager" where
  "initial_pager =
     \<lparr>pageSize = defaultPageSize, nextPageKey = '''', nextPageLoader = None,
      isFirstPageLoaded = False, isFirstPageLoadedOnce = False\<rparr>"

text \<open>The loop \<^verbatim>\<open>for _, opt := range opts\<close> of \<^verbatim>\<open>New\<close>.\<close>

fun apply_opts :: "('c, 'l, 'a) Option list \<Rightarrow> ('c, 'l, 'a) Pager \<Rightarrow> error + ('c, 'l, 'a) Pager" where
  "apply_opts [] pager = Inr pager"
| "apply_opts (opt # opts) pager =
     (case opt pager of
        Inl err \<Rightarrow> Inl err
      | Inr pager' \<Rightarrow> apply_opts opts pager')"

definition New :: "('c, 'l, 'a) Option list \<Rightarrow> error + ('c, 'l, 'a) Pager" where
  "New opts =
     (case apply_opts opts initial_pager of
        Inl err \<Rightarrow> Inl err
      | Inr pager \<Rightarrow>
          if nextPageLoader pager = None then Inl (Errorf ''next page loader is required'')
          else Inr pager)"

section \<open>Fetching pages\<close>

definition IsAllLoaded :: "('c, 'l, 'a) Pager \<Rightarrow> bool" where
  "IsAllLoaded p \<longleftrightarrow> nextPageKey p = '''' \<and> isFirstPageLoaded p"

text \<open>\<^verbatim>\<open>sync.Once.Do\<close> runs the function only if the once has not fired yet.\<close>

definition pageLoadedAtLeastOnceTime :: "('c, 'l, 'a) Pager \<Rightarrow> ('c, 'l, 'a) Pager" where
  "pageLoadedAtLeastOnceTime p =
     (if isFirstPageLoadedOnce p then p
      else p\<lparr>isFirstPageLoaded := True, isFirstPageLoadedOnce := True\<rparr>)"

text \<open>
  A call of a method returns its results, or panics; in both cases the pager and the
  loader are left in some state.
\<close>

datatype 'a outcome = Panic panic | Return "'a slice" "error option"

definition Next :: "'c \<Rightarrow> ('c, 'l, 'a) Pager \<Rightarrow> 'l \<Rightarrow> 'a outcome \<times> ('c, 'l, 'a) Pager \<times> 'l" where
  "Next ctx p l =
     (if IsAllLoaded p then (Return NilSlice None, p, l)
      else
        case nextPageLoader p of
          None \<Rightarrow> (Panic NilPointerDereference, p, l)
        | Some loader \<Rightarrow>
            (case loader ctx (nextPageKey p) (pageSize p) l of
               ((page, nextPageKey', err), l') \<Rightarrow>
                 (case err of
                    Some e \<Rightarrow> (Return NilSlice (Some (Errorf_page (nextPageKey p) e)), p, l')
                  | None \<Rightarrow>
                      (Return page None,
                       pageLoadedAtLeastOnceTime (p\<lparr>nextPageKey := nextPageKey'\<rparr>), l'))))"

text \<open>
  The loop of \<^verbatim>\<open>All\<close>. It runs as long as the loader keeps returning a non-empty next
  key, so it need not return: \<open>None\<close> is the run that never returns.
\<close>

partial_function (option) All_loop ::
  "'c \<Rightarrow> ('c, 'l, 'a) Pager \<Rightarrow> 'l \<Rightarrow> 'a slice \<Rightarrow> ('a outcome \<times> ('c, 'l, 'a) Pager \<times> 'l) option"
where
  "All_loop ctx p l allPages =
     (if \<not> IsAllLoaded p then
        (case Next ctx p l of
           (Panic pn, p', l') \<Rightarrow> Some (Panic pn, p', l')
         | (Return page (Some err), p', l') \<Rightarrow> Some (Return allPages (Some err), p', l')
         | (Return page None, p', l') \<Rightarrow> All_loop ctx p' l' (append_slice allPages page))
      else Some (Return allPages None, p, l))"

text \<open>\<^verbatim>\<open>All\<close>, run on a platform \<open>rt\<close>.\<close>

definition All ::
  "go_runtime \<Rightarrow> 'c \<Rightarrow> ('c, 'l, 'a) Pager \<Rightarrow> 'l \<Rightarrow> ('a outcome \<times> ('c, 'l, 'a) Pager \<times> 'l) option" where
  "All rt ctx p l =
     (case make_slice rt (pageSize p) of
        Inl pn \<Rightarrow> Some (Panic pn, p, l)
      | Inr allPages \<Rightarrow> All_loop ctx p l allPages)"

section \<open>Clients of the pager\<close>

text \<open>
  The options that \<^verbatim>\<open>options.go\<close> exports. Code outside the package cannot write to
  the pager's fields, so these are the options that configure a pager.
\<close>

inductive recognized :: "('c, 'l, 'a) Option \<Rightarrow> bool" where
  key: "recognized (WithNextPageKey key)"
| size: "recognized (WithPageSize n)"
| loader: "recognized (WithNextPageLoader loader)"

text \<open>A caller's sequence of calls on one pager, each with its own context.\<close>

datatype 'c call = CallNext 'c | CallAll 'c

fun run_calls ::
  "go_runtime \<Rightarrow> 'c call list \<Rightarrow> ('c, 'l, 'a) Pager \<Rightarrow> 'l \<Rightarrow>
   ('a outcome list \<times> ('c, 'l, 'a) Pager \<times> 'l) option" where
  "run_calls rt [] p l = Some ([], p, l)"
| "run_calls rt (CallNext ctx # cs) p l =
     (case Next ctx p l of
        (out, p', l') \<Rightarrow>
          (case run_calls rt cs p' l' of
             None \<Rightarrow> None
           | Some (outs, p'', l'') \<Rightarrow> Some (out # outs, p'', l'')))"
| "run_calls rt (CallAll ctx # cs) p l =
     (case All rt ctx p l of
        None \<Rightarrow> None
      | Some (out, p', l') \<Rightarrow>
          (case run_calls rt cs p' l' of
             None \<Rightarrow> None
           | Some (outs, p'', l'') \<Rightarrow> Some (out # outs, p'', l'')))"

section \<open>Reachable pagers and runs of the loader\<close>

text \<open>
  The once and the flag it guards are only ever set together, by
  \<open>pageLoadedAtLeastOnceTime\<close>: in every pager that \<open>New\<close> returns and that \<open>Next\<close> and
  \<open>All\<close> have worked on, a fired once means the flag is set.
\<close>

definition once_consistent :: "('c, 'l, 'a) Pager \<Rightarrow> bool" where
  "once_consistent p \<longleftrightarrow> (isFirstPageLoadedOnce p \<longrightarrow> isFirstPageLoaded p)"

text \<open>The pager after a successful fetch that returned the next key \<open>key\<close>.\<close>

definition after_fetch :: "('c, 'l, 'a) Pager \<Rightarrow> string \<Rightarrow> ('c, 'l, 'a) Pager" where
  "after_fetch p key =
     p\<lparr>nextPageKey := key, isFirstPageLoaded := True, isFirstPageLoadedOnce := True\<rparr>"

text \<open>
  What the specification says of the loader's side of fetch-all: the loader is called
  with a key, then with the key that call returned, and so on, until a call fails or
  returns the empty key. \<open>loader_run calls\<close> makes at most \<open>calls\<close> such calls and
  gives the pages of the successful calls in order, how the run ended (\<open>Pending key\<close>:
  not yet, the next call would use \<open>key\<close>), and the loader's state after the last call
  it made.
\<close>

datatype run_end = Exhausted | Failed string error | Pending string


definition run_ended :: "'a slice list \<times> run_end \<times> 'l \<Rightarrow> bool" where
  "run_ended r = (case fst (snd r) of Pending key \<Rightarrow> False | _ \<Rightarrow> True)"


section \<open>Loaders of the test suite\<close>

text \<open>
  \<^verbatim>\<open>fakeLoader\<close> of \<^verbatim>\<open>pager_test.go\<close>: two Go maps and the key at which it fails. A Go
  map gives the zero value at a missing key.
\<close>

record fakeLoader =
  pageByKey :: "string \<rightharpoonup> int list"
  nextPageKeyByPageKey :: "string \<rightharpoonup> string"
  errOnPageKey :: string

definition fakeLoader_Load :: "fakeLoader \<Rightarrow> ('c, 'l, int) Loader" where
  "fakeLoader_Load fl ctx pageKey n l =
     (if errOnPageKey fl = pageKey then ((NilSlice, '''', Some (ErrorString ''test error'')), l)
      else (((case pageByKey fl pageKey of None \<Rightarrow> NilSlice | Some xs \<Rightarrow> Slice xs),
             (case nextPageKeyByPageKey fl pageKey of None \<Rightarrow> '''' | Some k \<Rightarrow> k),
             None), l))"

definition three_pages :: "string \<Rightarrow> fakeLoader" where
  "three_pages errKey =
     \<lparr>pageByKey = ['''' \<mapsto> [1, 2, 3], ''second-page-key'' \<mapsto> [4, 5, 6],
                   ''third-page-key'' \<mapsto> [7, 8]],
      nextPageKeyByPageKey = ['''' \<mapsto> ''second-page-key'',
                   ''second-page-key'' \<mapsto> ''third-page-key'', ''third-page-key'' \<mapsto> ''''],
      errOnPageKey = errKey\<rparr>"

text \<open>
  The mock loaders of the tests return fixed results and count their calls; here a
  loader is wrapped so as to record the key and the page size of every call it gets.
\<close>

definition recording :: "('c, 'l, 'a) Loader \<Rightarrow> ('c, 'l \<times> (string \<times> int) list, 'a) Loader" where
  "recording loader ctx key n st =
     (case loader ctx key n (fst st) of
        (res, l') \<Rightarrow> (res, (l', snd st @ [(key, n)])))"

definition returning :: "'a slice \<times> string \<times> error option \<Rightarrow> ('c, 'l, 'a) Loader" where
  "returning res ctx key n l = (res, l)"

text \<open>Two loaders that never fail and never return the empty key.\<close>

definition endless_loader :: "(unit, unit, int) Loader" where
  "endless_loader ctx key n l = ((Slice [1], ''again'', None), l)"


text \<open>
  The pagers of the tests: a page size, a next page key and a loader, with the first
  page loaded or not.
\<close>

definition test_pager :: "int \<Rightarrow> string \<Rightarrow> ('c, 'l, 'a) Loader \<Rightarrow> bool \<Rightarrow> ('c, 'l, 'a) Pager" where
  "test_pager n key loader loaded =
     \<lparr>pageSize = n, nextPageKey = key, nextPageLoader = Some loader,
      isFirstPageLoaded = loaded, isFirstPageLoadedOnce = loaded\<rparr>"

text \<open>
  The loaders of the test cases "loader returned an error" and "nothing to load", and
  the three-page \<^verbatim>\<open>fakeLoader\<close> with its calls recorded.
\<close>

definition failing_loader :: "(unit, unit, int) Loader" where
  "failing_loader = returning (NilSlice, '''', Some (ErrorString ''some error''))"

definition nothing_loader :: "(unit, unit, int) Loader" where
  "nothing_loader = returning (Slice [], '''', None)"

definition recorded_three_pages :: "string \<Rightarrow> (unit, unit \<times> (string \<times> int) list, int) Loader" where
  "recorded_three_pages errKey = recording (fakeLoader_Load (three_pages errKey))"

text \<open>The exported options other than the page size option.\<close>

inductive key_or_loader_option :: "('c, 'l, 'a) Option \<Rightarrow> bool" where
  key: "key_or_loader_option (WithNextPageKey key)"
| loader: "key_or_loader_option (WithNextPageLoader loader)"

text \<open>The exported options that set no loader: the loader option only with \<^verbatim>\<open>nil\<close>.\<close>

inductive loaderless :: "('c, 'l, 'a) Option \<Rightarrow> bool" where
  key: "loaderless (WithNextPageKey key)"
| size: "loaderless (WithPageSize n)"
| nil_loader: "loaderless (WithNextPageLoader None)"

text \<open>What a call returns on a fully loaded pager \<open>p\<close>.\<close>

fun idle_outcome :: "go_runtime \<Rightarrow> ('c, 'l, 'a) Pager \<Rightarrow> 'c call \<Rightarrow> 'a outcome" where
  "idle_outcome rt p (CallNext ctx) = Return NilSlice None"
| "idle_outcome rt p (CallAll ctx) =
     (if pageSize p < 0 \<or> maxAlloc rt < elemSize rt * pageSize p
      then Panic MakesliceCapOutOfRange else Return (Slice []) None)"

text \<open>
  A platform for the tests, whose elements are of type \<^verbatim>\<open>int\<close>: 64-bit Linux, where an
  \<^verbatim>\<open>int\<close> has 8 bytes and the allocation limit is \<open>2 ^ 48\<close> bytes. The largest Go \<^verbatim>\<open>int\<close>
  there is \<open>2 ^ 63 - 1\<close>.
\<close>

definition linux_amd64_int :: go_runtime where
  "linux_amd64_int = \<lparr>elemSize = 8, maxAlloc = 2 ^ 48\<rparr>"

definition MaxInt64 :: int where
  "MaxInt64 = 2 ^ 63 - 1"

section \<open>Basic facts\<close>

lemma Error_Errorf_page: "Error (Errorf_page key e) = ''page '' @ key @ '': '' @ Error e"
  by (simp add: Errorf_page_def)

lemma Unwrap_Errorf_page: "Unwrap (Errorf_page key e) = Some e"
  by (simp add: Errorf_page_def)

lemma append_slice_Slice [simp]: "append_slice (Slice xs) t = Slice (xs @ elems t)"
  by (simp add: append_slice_def)

lemma after_fetch_simps [simp]:
  "pageSize (after_fetch p key) = pageSize p"
  "nextPageKey (after_fetch p key) = key"
  "nextPageLoader (after_fetch p key) = nextPageLoader p"
  "isFirstPageLoaded (after_fetch p key)"
  "isFirstPageLoadedOnce (after_fetch p key)"
  "once_consistent (after_fetch p key)"
  "IsAllLoaded (after_fetch p key) \<longleftrightarrow> key = ''''"
  "after_fetch (after_fetch p key) key' = after_fetch p key'"
  by (simp_all add: after_fetch_def once_consistent_def IsAllLoaded_def)

lemma pageLoadedAtLeastOnceTime_consistent:
  "once_consistent p \<Longrightarrow>
   pageLoadedAtLeastOnceTime (p\<lparr>nextPageKey := key\<rparr>) = after_fetch p key"
  by (cases p) (simp add: once_consistent_def pageLoadedAtLeastOnceTime_def after_fetch_def)

lemma Next_loaded: "IsAllLoaded p \<Longrightarrow> Next ctx p l = (Return NilSlice None, p, l)"
  by (simp add: Next_def)

lemma Next_fetch:
  assumes "nextPageLoader p = Some loader" "once_consistent p" "\<not> IsAllLoaded p"
    and "loader ctx (nextPageKey p) (pageSize p) l = ((page, key', err), l')"
  shows "Next ctx p l =
     (case err of
        Some e \<Rightarrow> (Return NilSlice (Some (Errorf_page (nextPageKey p) e)), p, l')
      | None \<Rightarrow> (Return page None, after_fetch p key', l'))"
  using assms by (simp add: Next_def pageLoadedAtLeastOnceTime_consistent split: option.split)

lemma Next_failure:
  assumes "nextPageLoader p = Some loader" "\<not> IsAllLoaded p"
    and "loader ctx (nextPageKey p) (pageSize p) l = ((page, key', Some e), l')"
  shows "Next ctx p l = (Return NilSlice (Some (Errorf_page (nextPageKey p) e)), p, l')"
  using assms by (simp add: Next_def)

lemma Next_success_page:
  assumes "nextPageLoader p = Some loader" "\<not> IsAllLoaded p"
    and "loader ctx (nextPageKey p) (pageSize p) l = ((page, key', None), l')"
  shows "fst (Next ctx p l) = Return page None"
  using assms by (simp add: Next_def)

subsection \<open>Construction\<close>

lemma recognized_flags:
  assumes "recognized opt" "opt p = Inr q"
  shows "isFirstPageLoaded q = isFirstPageLoaded p \<and>
         isFirstPageLoadedOnce q = isFirstPageLoadedOnce p"
  using assms
  by (cases rule: recognized.cases)
     (auto simp: WithNextPageKey_def WithPageSize_def WithNextPageLoader_def split: if_splits)

lemma recognized_pageSize:
  assumes "recognized opt" "opt p = Inr q" "0 < pageSize p"
  shows "0 < pageSize q"
  using assms
  by (cases rule: recognized.cases)
     (auto simp: WithNextPageKey_def WithPageSize_def WithNextPageLoader_def split: if_splits)

lemma apply_opts_flags:
  assumes "list_all recognized opts" "apply_opts opts p = Inr q"
  shows "isFirstPageLoaded q = isFirstPageLoaded p \<and>
         isFirstPageLoadedOnce q = isFirstPageLoadedOnce p"
  using assms
proof (induction opts arbitrary: p)
  case Nil
  then show ?case by simp
next
  case (Cons opt opts)
  from Cons.prems(2) obtain p' where o: "opt p = Inr p'" and r: "apply_opts opts p' = Inr q"
    by (auto split: sum.splits)
  from Cons.prems(1) o have "isFirstPageLoaded p' = isFirstPageLoaded p \<and>
      isFirstPageLoadedOnce p' = isFirstPageLoadedOnce p"
    by (auto dest: recognized_flags)
  moreover from Cons.IH [OF _ r] Cons.prems(1) have "isFirstPageLoaded q = isFirstPageLoaded p' \<and>
      isFirstPageLoadedOnce q = isFirstPageLoadedOnce p'"
    by simp
  ultimately show ?case by simp
qed

lemma apply_opts_pageSize:
  assumes "list_all recognized opts" "apply_opts opts p = Inr q" "0 < pageSize p"
  shows "0 < pageSize q"
  using assms
proof (induction opts arbitrary: p)
  case Nil
  then show ?case by simp
next
  case (Cons opt opts)
  from Cons.prems(2) obtain p' where o: "opt p = Inr p'" and r: "apply_opts opts p' = Inr q"
    by (auto split: sum.splits)
  from Cons.prems(1,3) o have "0 < pageSize p'"
    by (auto intro: recognized_pageSize)
  with Cons.IH [OF _ r] Cons.prems(1) show ?case by simp
qed

lemma New_Inr:
  "New opts = Inr q \<longleftrightarrow> apply_opts opts initial_pager = Inr q \<and> nextPageLoader q \<noteq> None"
  by (auto simp: New_def split: sum.splits)

text \<open>
  Every pager that \<open>New\<close> builds from the exported options has a positive page size and
  a loader, has fetched nothing and has not fired its once.
\<close>

lemma New_establishes:
  assumes "list_all recognized opts" "New opts = Inr q"
  shows "0 < pageSize q" "nextPageLoader q \<noteq> None" "\<not> isFirstPageLoaded q"
    "\<not> isFirstPageLoadedOnce q" "once_consistent q"
proof -
  from assms(2) have a: "apply_opts opts initial_pager = Inr q" and "nextPageLoader q \<noteq> None"
    by (simp_all add: New_Inr)
  then show "nextPageLoader q \<noteq> None" by simp
  from apply_opts_pageSize [OF assms(1) a] show "0 < pageSize q"
    by (simp add: initial_pager_def defaultPageSize_def)
  from apply_opts_flags [OF assms(1) a]
  show "\<not> isFirstPageLoaded q" "\<not> isFirstPageLoadedOnce q"
    by (simp_all add: initial_pager_def)
  then show "once_consistent q" by (simp add: once_consistent_def)
qed

text \<open>\<open>Next\<close> keeps the configuration and the consistency of the once.\<close>

lemma Next_preserves:
  assumes "Next ctx p l = (out, p', l')"
  shows "pageSize p' = pageSize p" "nextPageLoader p' = nextPageLoader p"
    "once_consistent p \<Longrightarrow> once_consistent p'"
    "isFirstPageLoaded p \<Longrightarrow> isFirstPageLoaded p'"
  using assms
  by (auto simp: Next_def pageLoadedAtLeastOnceTime_def once_consistent_def
      split: if_splits option.splits prod.splits)

section \<open>The completion predicate\<close>

text \<open>
  Claim C1. \<open>IsAllLoaded\<close> holds if and only if the next page key is empty and the
  first page has been loaded. A pager that \<open>New\<close> has just built from the exported
  options is not fully loaded, whatever its next page key is, the default empty key
  included.
\<close>

theorem IsAllLoaded_iff_and_fresh:
  "(IsAllLoaded p \<longleftrightarrow> nextPageKey p = '''' \<and> isFirstPageLoaded p) \<and>
   (list_all recognized opts \<and> New opts = Inr q \<longrightarrow> \<not> IsAllLoaded q)"
proof (intro conjI impI)
  show "IsAllLoaded p \<longleftrightarrow> nextPageKey p = '''' \<and> isFirstPageLoaded p"
    by (simp add: IsAllLoaded_def)
next
  assume "list_all recognized opts \<and> New opts = Inr q"
  then have "\<not> isFirstPageLoaded q"
    using New_establishes(3) [of opts q] by simp
  then show "\<not> IsAllLoaded q"
    by (simp add: IsAllLoaded_def)
qed

theorem IsAllLoaded_iff_and_fresh_witness:
  "list_all recognized [WithNextPageLoader (Some endless_loader)] \<and>
   New [WithNextPageLoader (Some endless_loader)] = Inr (test_pager 100 '''' endless_loader False) \<and>
   nextPageKey (test_pager 100 '''' endless_loader False) = '''' \<and>
   \<not> IsAllLoaded (test_pager 100 '''' endless_loader False)"
proof -
  let ?opts = "[WithNextPageLoader (Some endless_loader)]"
  let ?q = "test_pager 100 '''' endless_loader False"
  have r: "list_all recognized ?opts"
    by (simp add: recognized.loader)
  have n: "New ?opts = Inr ?q"
    by (simp add: New_def WithNextPageLoader_def initial_pager_def defaultPageSize_def
        test_pager_def)
  have k: "nextPageKey ?q = ''''"
    by (simp add: test_pager_def)
  from r n k IsAllLoaded_iff_and_fresh [of ?q ?opts ?q] show ?thesis
    by blast
qed

section \<open>Fetching one page\<close>

text \<open>
  Claim C5. On a fully loaded pager \<open>Next\<close> returns a nil page and no error, leaves the
  pager as it is and does not call the loader: the loader's state is the one before the
  call, whatever the loader records. A second call does the same.
\<close>

theorem Next_when_all_loaded:
  assumes "IsAllLoaded p"
  shows "Next ctx p l = (Return NilSlice None, p, l) \<and>
         (case Next ctx p l of (out, p', l') \<Rightarrow> Next ctx' p' l') = (Return NilSlice None, p, l)"
  using assms by (simp add: Next_loaded)

theorem Next_when_all_loaded_witness:
  "IsAllLoaded (test_pager 100 [] (recorded_three_pages ''no-error'') True) \<and>
   Next () (test_pager 100 [] (recorded_three_pages ''no-error'') True) ((), []) =
     (Return NilSlice None, test_pager 100 [] (recorded_three_pages ''no-error'') True, ((), []))"
proof -
  let ?p = "test_pager 100 [] (recorded_three_pages ''no-error'') True"
  have h: "IsAllLoaded ?p"
    by (simp add: IsAllLoaded_def test_pager_def)
  from h Next_when_all_loaded [OF h, of "()" "((), [])" "()"] show ?thesis
    by simp
qed

text \<open>
  Claim C3. On a pager that is not fully loaded, when the loader's call fails with the
  error \<open>e\<close>, \<open>Next\<close> returns a nil page and an error that wraps \<open>e\<close> and whose message is
  "page ", the key of the attempt, ": " and the message of \<open>e\<close>. The pager is left as it
  was, so the next call asks the loader for the same key again.
\<close>

theorem Next_loader_failure:
  assumes "\<not> IsAllLoaded p" and "nextPageLoader p = Some loader"
    and "loader ctx (nextPageKey p) (pageSize p) l = ((page, key', Some e), l')"
  shows "Next ctx p l = (Return NilSlice (Some (Errorf_page (nextPageKey p) e)), p, l') \<and>
         Error (Errorf_page (nextPageKey p) e) = ''page '' @ nextPageKey p @ '': '' @ Error e \<and>
         Unwrap (Errorf_page (nextPageKey p) e) = Some e \<and>
         (\<forall>page2 key2 l2. loader ctx (nextPageKey p) (pageSize p) l' = ((page2, key2, None), l2) \<longrightarrow>
            (case Next ctx p l of (out, p', l1) \<Rightarrow> fst (Next ctx p' l1)) = Return page2 None)"
proof -
  have n: "Next ctx p l = (Return NilSlice (Some (Errorf_page (nextPageKey p) e)), p, l')"
    using assms by (simp add: Next_failure)
  have "fst (Next ctx p l') = Return page2 None"
    if "loader ctx (nextPageKey p) (pageSize p) l' = ((page2, key2, None), l2)" for page2 key2 l2
    using assms(1,2) that by (simp add: Next_success_page)
  with n show ?thesis
    by (simp add: Error_Errorf_page Unwrap_Errorf_page)
qed

theorem Next_loader_failure_witness:
  "\<not> IsAllLoaded (test_pager 100 ''previous-page-key'' failing_loader False) \<and>
   failing_loader () ''previous-page-key'' 100 () =
     ((NilSlice, [], Some (ErrorString ''some error'')), ()) \<and>
   Next () (test_pager 100 ''previous-page-key'' failing_loader False) () =
     (Return NilSlice (Some (WrapError ''page previous-page-key: some error''
                                (ErrorString ''some error''))),
      test_pager 100 ''previous-page-key'' failing_loader False, ())"
proof -
  let ?p = "test_pager 100 ''previous-page-key'' failing_loader False"
  have h1: "\<not> IsAllLoaded ?p"
    by (simp add: IsAllLoaded_def test_pager_def)
  have h2: "nextPageLoader ?p = Some failing_loader"
    by (simp add: test_pager_def)
  have h3: "failing_loader () (nextPageKey ?p) (pageSize ?p) () =
      ((NilSlice, [], Some (ErrorString ''some error'')), ())"
    by (simp add: returning_def failing_loader_def)
  have m: "Errorf_page (nextPageKey ?p) (ErrorString ''some error'') =
      WrapError ''page previous-page-key: some error'' (ErrorString ''some error'')"
    by (simp add: Errorf_page_def test_pager_def)
  have c: "Next () ?p () = (Return NilSlice (Some (Errorf_page (nextPageKey ?p)
      (ErrorString ''some error''))), ?p, ())"
    using conjunct1 [OF Next_loader_failure [where loader = failing_loader, OF h1 h2 h3]] .
  show ?thesis
    using h1 c unfolding m by (simp add: returning_def failing_loader_def)
qed

text \<open>
  Claim C4. On a pager that is not fully loaded, when the loader's call succeeds with
  the items \<open>page\<close> and the next key \<open>k\<close>, \<open>Next\<close> returns \<open>page\<close> and no error, stores \<open>k\<close>
  as the next page key, empty or not, and leaves the first-page flag set. After the
  call the pager is fully loaded exactly when \<open>k\<close> is empty: an empty page with a
  non-empty key does not end the pagination, and an empty key ends it even on the
  first call. The once and the flag are consistent in every reachable pager
  (\<open>New_establishes\<close>, \<open>Next_preserves\<close>).
\<close>

theorem Next_loader_success:
  assumes "\<not> IsAllLoaded p" and "once_consistent p" and "nextPageLoader p = Some loader"
    and "loader ctx (nextPageKey p) (pageSize p) l = ((page, k, None), l')"
  shows "Next ctx p l =
           (Return page None,
            p\<lparr>nextPageKey := k, isFirstPageLoaded := True, isFirstPageLoadedOnce := True\<rparr>, l') \<and>
         (IsAllLoaded (fst (snd (Next ctx p l))) \<longleftrightarrow> k = '''')"
proof -
  have "Next ctx p l = (Return page None, after_fetch p k, l')"
    using Next_fetch [OF assms(3,2,1,4)] by simp
  then show ?thesis
    by (simp add: after_fetch_def IsAllLoaded_def)
qed

theorem Next_loader_success_witness:
  "\<not> IsAllLoaded (test_pager 100 [] nothing_loader False) \<and>
   once_consistent (test_pager 100 [] nothing_loader False) \<and>
   Next () (test_pager 100 [] nothing_loader False) () =
     (Return (Slice []) None, test_pager 100 [] nothing_loader True, ()) \<and>
   IsAllLoaded (test_pager 100 [] nothing_loader True)"
proof -
  let ?p = "test_pager 100 [] nothing_loader False"
  have h1: "\<not> IsAllLoaded ?p"
    by (simp add: IsAllLoaded_def test_pager_def)
  have h2: "once_consistent ?p"
    by (simp add: once_consistent_def test_pager_def)
  have h3: "nextPageLoader ?p = Some nothing_loader"
    by (simp add: test_pager_def)
  have h4: "nothing_loader () (nextPageKey ?p) (pageSize ?p) () = ((Slice [], [], None), ())"
    by (simp add: returning_def nothing_loader_def)
  have u: "?p\<lparr>nextPageKey := [], isFirstPageLoaded := True, isFirstPageLoadedOnce := True\<rparr> =
      test_pager 100 [] nothing_loader True"
    by (simp add: test_pager_def)
  have c: "Next () ?p () = (Return (Slice []) None, test_pager 100 [] nothing_loader True, ())"
    using conjunct1 [OF Next_loader_success [where loader = nothing_loader, OF h1 h2 h3 h4]] unfolding u .
  have d: "IsAllLoaded (fst (snd (Next () ?p ())))"
    using conjunct2 [OF Next_loader_success [where loader = nothing_loader, OF h1 h2 h3 h4]] by simp
  show ?thesis
    using h1 h2 c d by simp
qed

section \<open>Construction and its options\<close>

lemma WithPageSize_Inl:
  "WithPageSize n p = Inl err \<longleftrightarrow> n \<le> 0 \<and> err = ErrorString ''page size must be positive''"
  by (auto simp: WithPageSize_def Errorf_def)

lemma WithPageSize_Inr: "WithPageSize n p = Inr q \<longleftrightarrow> 1 \<le> n \<and> q = p\<lparr>pageSize := n\<rparr>"
  by (auto simp: WithPageSize_def)

lemma WithNextPageKey_Inl:
  "WithNextPageKey key p = Inl err \<longleftrightarrow>
     key = [] \<and> err = ErrorString ''next page key must not be empty''"
  by (auto simp: WithNextPageKey_def Errorf_def)

lemma WithNextPageKey_Inr:
  "WithNextPageKey key p = Inr q \<longleftrightarrow> key \<noteq> [] \<and> q = p\<lparr>nextPageKey := key\<rparr>"
  by (auto simp: WithNextPageKey_def)

lemma New_loader_then_size:
  "New [WithNextPageLoader (Some loader), WithPageSize n] =
     (if n \<le> 0 then Inl (ErrorString ''page size must be positive'')
      else Inr (test_pager n [] loader False))"
  by (simp add: New_def WithNextPageLoader_def WithPageSize_def Errorf_def initial_pager_def
      test_pager_def)

lemma New_loader_then_key:
  "New [WithNextPageLoader (Some loader), WithNextPageKey key] =
     (if key = [] then Inl (ErrorString ''next page key must not be empty'')
      else Inr (test_pager 100 key loader False))"
  by (simp add: New_def WithNextPageLoader_def WithNextPageKey_def Errorf_def initial_pager_def
      test_pager_def defaultPageSize_def)

lemma key_or_loader_pageSize:
  assumes "key_or_loader_option opt" "opt p = Inr q"
  shows "pageSize q = pageSize p"
  using assms
  by (cases rule: key_or_loader_option.cases)
     (auto simp: WithNextPageKey_def WithNextPageLoader_def split: if_splits)

lemma apply_opts_default_pageSize:
  assumes "list_all key_or_loader_option opts" "apply_opts opts p = Inr q"
  shows "pageSize q = pageSize p"
  using assms
proof (induction opts arbitrary: p)
  case Nil
  then show ?case by simp
next
  case (Cons opt opts)
  from Cons.prems(2) obtain p' where o: "opt p = Inr p'" and r: "apply_opts opts p' = Inr q"
    by (auto split: sum.splits)
  from Cons.prems(1) o have "pageSize p' = pageSize p"
    by (auto dest: key_or_loader_pageSize)
  with Cons.IH [OF _ r] Cons.prems(1) show ?case by simp
qed

text \<open>
  Claim C8. The page size option fails, with "page size must be positive", exactly
  when the size is at most 0, and otherwise stores the size; the next page key option
  fails, with "next page key must not be empty", exactly when the key is empty, and
  otherwise stores the key. With a loader set, \<open>New\<close> fails or succeeds accordingly, and
  a pager built without the page size option has the page size 100.
\<close>

theorem option_validation:
  "(WithPageSize n p = Inl err \<longleftrightarrow> n \<le> 0 \<and> err = ErrorString ''page size must be positive'') \<and>
   (WithPageSize n p = Inr q \<longleftrightarrow> 1 \<le> n \<and> q = p\<lparr>pageSize := n\<rparr>) \<and>
   (WithNextPageKey key p = Inl err \<longleftrightarrow>
      key = [] \<and> err = ErrorString ''next page key must not be empty'') \<and>
   (WithNextPageKey key p = Inr q \<longleftrightarrow> key \<noteq> [] \<and> q = p\<lparr>nextPageKey := key\<rparr>) \<and>
   New [WithNextPageLoader (Some loader), WithPageSize n] =
     (if n \<le> 0 then Inl (ErrorString ''page size must be positive'')
      else Inr (test_pager n [] loader False)) \<and>
   New [WithNextPageLoader (Some loader), WithNextPageKey key] =
     (if key = [] then Inl (ErrorString ''next page key must not be empty'')
      else Inr (test_pager 100 key loader False)) \<and>
   (list_all key_or_loader_option opts \<and> New opts = Inr r \<longrightarrow> pageSize r = 100)"
proof -
  have "pageSize r = 100" if "list_all key_or_loader_option opts" "New opts = Inr r"
    using apply_opts_default_pageSize [of opts initial_pager r] that
    by (simp add: New_Inr initial_pager_def defaultPageSize_def)
  then show ?thesis
    using WithPageSize_Inl [of n p err] WithPageSize_Inr [of n p q]
      WithNextPageKey_Inl [of key p err] WithNextPageKey_Inr [of key p q]
      New_loader_then_size [of loader n] New_loader_then_key [of loader key]
    by blast
qed

theorem option_validation_witness:
  "list_all key_or_loader_option
     [WithNextPageKey ''custom-page-key'', WithNextPageLoader (Some endless_loader)] \<and>
   New [WithNextPageKey ''custom-page-key'', WithNextPageLoader (Some endless_loader)] =
     Inr (test_pager 100 ''custom-page-key'' endless_loader False) \<and>
   pageSize (test_pager 100 ''custom-page-key'' endless_loader False) = 100 \<and>
   New [WithNextPageLoader (Some endless_loader), WithPageSize 0] =
     Inl (ErrorString ''page size must be positive'') \<and>
   New [WithNextPageLoader (Some endless_loader), WithPageSize (- 1)] =
     Inl (ErrorString ''page size must be positive'') \<and>
   New [WithNextPageLoader (Some endless_loader), WithPageSize 1] =
     Inr (test_pager 1 [] endless_loader False) \<and>
   New [WithNextPageLoader (Some endless_loader), WithNextPageKey []] =
     Inl (ErrorString ''next page key must not be empty'')"
proof -
  let ?opts = "[WithNextPageKey ''custom-page-key'', WithNextPageLoader (Some endless_loader)]"
  let ?r = "test_pager 100 ''custom-page-key'' endless_loader False"
  have h1: "list_all key_or_loader_option ?opts"
    by (simp add: key_or_loader_option.intros)
  have h2: "New ?opts = Inr ?r"
    by (simp add: New_def WithNextPageLoader_def WithNextPageKey_def initial_pager_def
        test_pager_def defaultPageSize_def)
  note v = option_validation [where opts = ?opts and r = ?r and loader = endless_loader
      and p = initial_pager and q = initial_pager and err = "ErrorString []"]
  have a: "pageSize ?r = 100"
    using v [where n = 0 and key = "[]"] h1 h2 by blast
  have b: "New [WithNextPageLoader (Some endless_loader), WithPageSize 0] =
      Inl (ErrorString ''page size must be positive'')"
    using v [where n = 0 and key = "[]"] by auto
  have c: "New [WithNextPageLoader (Some endless_loader), WithPageSize (- 1)] =
      Inl (ErrorString ''page size must be positive'')"
    using v [where n = "- 1" and key = "[]"] by auto
  have d: "New [WithNextPageLoader (Some endless_loader), WithPageSize 1] =
      Inr (test_pager 1 [] endless_loader False)"
    using v [where n = 1 and key = "[]"] by auto
  have e: "New [WithNextPageLoader (Some endless_loader), WithNextPageKey []] =
      Inl (ErrorString ''next page key must not be empty'')"
    using v [where n = 0 and key = "[]"] by auto
  from h1 h2 a b c d e show ?thesis by simp
qed

lemma apply_opts_append:
  "apply_opts (pre @ post) p =
     (case apply_opts pre p of Inl err \<Rightarrow> Inl err | Inr p' \<Rightarrow> apply_opts post p')"
  by (induction pre arbitrary: p) (auto split: sum.splits)

lemma apply_opts_first_failure:
  assumes "apply_opts pre p0 = Inr p" "opt p = Inl err"
  shows "apply_opts (pre @ opt # post) p0 = Inl err"
  using assms by (simp add: apply_opts_append)

lemma apply_opts_Inl:
  "apply_opts opts p0 = Inl err \<longleftrightarrow>
     (\<exists>pre opt post p. opts = pre @ opt # post \<and> apply_opts pre p0 = Inr p \<and> opt p = Inl err)"
proof
  assume "apply_opts opts p0 = Inl err"
  then show "\<exists>pre opt post p. opts = pre @ opt # post \<and> apply_opts pre p0 = Inr p \<and> opt p = Inl err"
  proof (induction opts arbitrary: p0)
    case Nil
    then show ?case by simp
  next
    case (Cons opt opts)
    show ?case
    proof (cases "opt p0")
      case (Inl e)
      with Cons.prems have "opt # opts = [] @ opt # opts \<and> apply_opts [] p0 = Inr p0 \<and> opt p0 = Inl err"
        by simp
      then show ?thesis by blast
    next
      case (Inr p1)
      with Cons.prems have "apply_opts opts p1 = Inl err" by simp
      from Cons.IH [OF this] obtain pre o' post p where
        "opts = pre @ o' # post" "apply_opts pre p1 = Inr p" "o' p = Inl err"
        by blast
      with Inr have "opt # opts = (opt # pre) @ o' # post \<and> apply_opts (opt # pre) p0 = Inr p \<and>
          o' p = Inl err"
        by simp
      then show ?thesis by blast
    qed
  qed
next
  assume "\<exists>pre opt post p. opts = pre @ opt # post \<and> apply_opts pre p0 = Inr p \<and> opt p = Inl err"
  then show "apply_opts opts p0 = Inl err"
    by (auto simp: apply_opts_first_failure)
qed

lemma loaderless_keeps_loader:
  assumes "loaderless opt" "opt p = Inr q"
  shows "nextPageLoader q = nextPageLoader p"
  using assms
  by (cases rule: loaderless.cases)
     (auto simp: WithNextPageKey_def WithPageSize_def WithNextPageLoader_def split: if_splits)

lemma apply_opts_loaderless:
  assumes "list_all loaderless opts" "apply_opts opts p = Inr q"
  shows "nextPageLoader q = nextPageLoader p"
  using assms
proof (induction opts arbitrary: p)
  case Nil
  then show ?case by simp
next
  case (Cons opt opts)
  from Cons.prems(2) obtain p' where o: "opt p = Inr p'" and r: "apply_opts opts p' = Inr q"
    by (auto split: sum.splits)
  from Cons.prems(1) o have "nextPageLoader p' = nextPageLoader p"
    by (auto dest: loaderless_keeps_loader)
  with Cons.IH [OF _ r] Cons.prems(1) show ?case by simp
qed

lemma New_first_failure:
  assumes "apply_opts pre initial_pager = Inr p" "opt p = Inl err"
  shows "New (pre @ opt # post) = Inl err"
  using assms by (simp add: New_def apply_opts_first_failure)

lemma New_no_loader:
  assumes "apply_opts opts initial_pager = Inr p" "nextPageLoader p = None"
  shows "New opts = Inl (ErrorString ''next page loader is required'')"
  using assms by (simp add: New_def Errorf_def)

lemma New_Inl:
  "New opts = Inl err \<longleftrightarrow>
     (\<exists>pre opt post p. opts = pre @ opt # post \<and> apply_opts pre initial_pager = Inr p \<and>
        opt p = Inl err) \<or>
     (\<exists>p. apply_opts opts initial_pager = Inr p \<and> nextPageLoader p = None \<and>
        err = ErrorString ''next page loader is required'')"
proof (cases "apply_opts opts initial_pager")
  case (Inl e)
  then have "New opts = Inl e" by (simp add: New_def)
  with Inl show ?thesis
    using apply_opts_Inl [of opts initial_pager err] by auto
next
  case (Inr p)
  then have "\<not> (\<exists>pre opt post p. opts = pre @ opt # post \<and>
      apply_opts pre initial_pager = Inr p \<and> opt p = Inl err)"
    using apply_opts_Inl [of opts initial_pager err] by simp
  with Inr show ?thesis
    by (auto simp: New_def Errorf_def)
qed

lemma New_loaderless:
  assumes "list_all loaderless opts"
  shows "\<exists>err. New opts = Inl err"
    and "apply_opts opts initial_pager = Inr p \<Longrightarrow>
         New opts = Inl (ErrorString ''next page loader is required'')"
proof -
  show "apply_opts opts initial_pager = Inr p \<Longrightarrow>
         New opts = Inl (ErrorString ''next page loader is required'')"
    using apply_opts_loaderless [OF assms, of initial_pager p]
    by (simp add: New_no_loader initial_pager_def)
  show "\<exists>err. New opts = Inl err"
  proof (cases "apply_opts opts initial_pager")
    case (Inl e)
    then show ?thesis by (simp add: New_def)
  next
    case (Inr p')
    with apply_opts_loaderless [OF assms, of initial_pager p'] show ?thesis
      by (simp add: New_def initial_pager_def)
  qed
qed

text \<open>
  Claim C7, as the code has it. \<open>New\<close> applies the options in order, and the first
  option that fails ends the construction with that option's error and no pager; every
  failure of \<open>New\<close> is either such a failure or, when all options succeeded and none set
  a loader, "next page loader is required". The loader option with a nil loader fails
  with that same error when no option before it fails. From options that set no loader
  \<open>New\<close> never returns a pager, and the error is "next page loader is required" unless
  one of them fails before.
\<close>

theorem New_options_in_order:
  "(apply_opts pre initial_pager = Inr p \<and> opt p = Inl err \<longrightarrow>
      New (pre @ opt # post) = Inl err) \<and>
   (New opts = Inl err \<longleftrightarrow>
      (\<exists>pre opt post p. opts = pre @ opt # post \<and> apply_opts pre initial_pager = Inr p \<and>
         opt p = Inl err) \<or>
      (\<exists>p. apply_opts opts initial_pager = Inr p \<and> nextPageLoader p = None \<and>
         err = ErrorString ''next page loader is required'')) \<and>
   (apply_opts pre initial_pager = Inr p \<longrightarrow>
      New (pre @ WithNextPageLoader None # post) =
        Inl (ErrorString ''next page loader is required'')) \<and>
   (list_all loaderless opts \<longrightarrow> (\<exists>e. New opts = Inl e)) \<and>
   (list_all loaderless opts \<and> apply_opts opts initial_pager = Inr p \<longrightarrow>
      New opts = Inl (ErrorString ''next page loader is required''))"
proof (intro conjI impI)
  assume "apply_opts pre initial_pager = Inr p \<and> opt p = Inl err"
  then show "New (pre @ opt # post) = Inl err"
    by (simp add: New_first_failure)
next
  show "New opts = Inl err \<longleftrightarrow>
      (\<exists>pre opt post p. opts = pre @ opt # post \<and> apply_opts pre initial_pager = Inr p \<and>
         opt p = Inl err) \<or>
      (\<exists>p. apply_opts opts initial_pager = Inr p \<and> nextPageLoader p = None \<and>
         err = ErrorString ''next page loader is required'')"
    by (rule New_Inl)
next
  assume a: "apply_opts pre initial_pager = Inr p"
  have "WithNextPageLoader None p = Inl (ErrorString ''next page loader is required'')"
    by (simp add: WithNextPageLoader_def Errorf_def)
  with a show "New (pre @ WithNextPageLoader None # post) =
      Inl (ErrorString ''next page loader is required'')"
    by (simp add: New_first_failure)
next
  assume "list_all loaderless opts"
  then show "\<exists>e. New opts = Inl e"
    by (rule New_loaderless(1))
next
  assume "list_all loaderless opts \<and> apply_opts opts initial_pager = Inr p"
  then show "New opts = Inl (ErrorString ''next page loader is required'')"
    by (simp add: New_loaderless(2))
qed

theorem New_options_in_order_witness:
  "apply_opts [WithNextPageLoader (Some endless_loader)] initial_pager =
     Inr (test_pager 100 [] endless_loader False) \<and>
   WithNextPageKey [] (test_pager 100 [] endless_loader False) =
     Inl (ErrorString ''next page key must not be empty'') \<and>
   New [WithNextPageLoader (Some endless_loader), WithNextPageKey []] =
     Inl (ErrorString ''next page key must not be empty'') \<and>
   New [WithNextPageLoader (Some endless_loader), WithNextPageLoader None] =
     Inl (ErrorString ''next page loader is required'')"
proof -
  let ?pre = "[WithNextPageLoader (Some endless_loader)]"
  let ?p = "test_pager 100 [] endless_loader False"
  have h1: "apply_opts ?pre initial_pager = Inr ?p"
    by (simp add: WithNextPageLoader_def initial_pager_def test_pager_def defaultPageSize_def)
  have h2: "WithNextPageKey [] ?p = Inl (ErrorString ''next page key must not be empty'')"
    by (simp add: WithNextPageKey_def Errorf_def)
  note t = New_options_in_order [where pre = ?pre and p = ?p and post = "[]"
      and opt = "WithNextPageKey []" and err = "ErrorString ''next page key must not be empty''"
      and opts = "[]"]
  have a: "New (?pre @ WithNextPageKey [] # []) =
      Inl (ErrorString ''next page key must not be empty'')"
    using t h1 h2 by blast
  have b: "New (?pre @ WithNextPageLoader None # []) =
      Inl (ErrorString ''next page loader is required'')"
    using t h1 by blast
  from h1 h2 a b show ?thesis by simp
qed

theorem New_without_loader_counterexample:
  "New [WithPageSize 0] =
     (Inl (ErrorString ''page size must be positive'') :: error + (unit, unit, int) Pager) \<and>
   New [WithPageSize 0] \<noteq>
     (Inl (ErrorString ''next page loader is required'') :: error + (unit, unit, int) Pager) \<and>
   New [WithNextPageKey [], WithNextPageLoader None] =
     (Inl (ErrorString ''next page key must not be empty'') :: error + (unit, unit, int) Pager) \<and>
   New [WithNextPageKey [], WithNextPageLoader None] \<noteq>
     (Inl (ErrorString ''next page loader is required'') :: error + (unit, unit, int) Pager)"
  by (simp add: New_def WithPageSize_def WithNextPageKey_def Errorf_def)

section \<open>The loop of fetch-all\<close>

lemma run_ended_simps [simp]:
  "run_ended (pages, Exhausted, l)"
  "run_ended (pages, Failed key e, l)"
  "\<not> run_ended (pages, Pending key, l)"
  by (simp_all add: run_ended_def)





lemma All_loop_loaded:
  "IsAllLoaded p \<Longrightarrow> All_loop ctx p l acc = Some (Return acc None, p, l)"
  by (subst All_loop.simps) simp


lemma All_no_slice:
  "pageSize p < 0 \<or> maxAlloc rt < elemSize rt * pageSize p \<Longrightarrow>
   All rt ctx p l = Some (Panic MakesliceCapOutOfRange, p, l)"
  by (simp add: All_def make_slice_def)

lemma All_loop_eq:
  "0 \<le> pageSize p \<Longrightarrow> elemSize rt * pageSize p \<le> maxAlloc rt \<Longrightarrow>
   All rt ctx p l = All_loop ctx p l (Slice [])"
  by (simp add: All_def make_slice_def)

lemma All_loaded:
  "IsAllLoaded p \<Longrightarrow> All rt ctx p l = Some (idle_outcome rt p (CallAll ctx), p, l)"
  by (cases "pageSize p < 0 \<or> maxAlloc rt < elemSize rt * pageSize p")
     (simp_all add: All_no_slice All_loop_eq All_loop_loaded)



text \<open>\<open>All\<close> keeps the configuration and the consistency of the once, like \<open>Next\<close>.\<close>

lemma All_loop_preserves:
  assumes ret: "All_loop ctx (p :: ('c, 'l, 'a) Pager) l acc = Some (out, p', l')"
  shows "pageSize p' = pageSize p \<and> nextPageLoader p' = nextPageLoader p \<and>
         (once_consistent p \<longrightarrow> once_consistent p')"
proof -
  let ?Q = "\<lambda>(ctx :: 'c) (p :: ('c, 'l, 'a) Pager) (l :: 'l) (acc :: 'a slice)
              (r :: 'a outcome \<times> ('c, 'l, 'a) Pager \<times> 'l).
      pageSize (fst (snd r)) = pageSize p \<and> nextPageLoader (fst (snd r)) = nextPageLoader p \<and>
      (once_consistent p \<longrightarrow> once_consistent (fst (snd r)))"
  have "?Q ctx p l acc (out, p', l')"
  proof (rule All_loop.raw_induct [where P = ?Q, OF _ ret], goal_cases)
    case (1 f ctx p l allPages r)
    obtain out1 p1 l1 where nx: "Next ctx p l = (out1, p1, l1)"
      by (metis prod_cases3)
    note pr = Next_preserves(1-3) [OF nx]
    show ?case
    proof (cases "IsAllLoaded p")
      case True
      with "1"(2) show ?thesis by auto
    next
      case False
      show ?thesis
      proof (cases out1)
        case (Panic pn)
        with False nx "1"(2) have "r = (out1, p1, l1)" by simp
        with pr show ?thesis by simp
      next
        case (Return page err)
        show ?thesis
        proof (cases err)
          case (Some e)
          with Return False nx "1"(2) have "fst (snd r) = p1" by auto
          with pr show ?thesis by simp
        next
          case None
          with Return False nx "1"(2) have "f ctx p1 l1 (append_slice allPages page) = Some r"
            by simp
          from "1"(1) [OF this] pr show ?thesis by simp
        qed
      qed
    qed
  qed
  then show ?thesis by simp
qed

lemma All_preserves:
  assumes "All rt ctx p l = Some (out, p', l')"
  shows "pageSize p' = pageSize p" "nextPageLoader p' = nextPageLoader p"
    "once_consistent p \<Longrightarrow> once_consistent p'"
proof -
  have "pageSize p' = pageSize p \<and> nextPageLoader p' = nextPageLoader p \<and>
         (once_consistent p \<longrightarrow> once_consistent p')"
  proof (cases "pageSize p < 0 \<or> maxAlloc rt < elemSize rt * pageSize p")
    case True
    with assms show ?thesis by (simp add: All_no_slice)
  next
    case False
    with assms have "All_loop ctx p l (Slice []) = Some (out, p', l')"
      by (simp add: All_loop_eq)
    then show ?thesis by (rule All_loop_preserves)
  qed
  then show "pageSize p' = pageSize p" "nextPageLoader p' = nextPageLoader p"
    "once_consistent p \<Longrightarrow> once_consistent p'"
    by simp_all
qed

section \<open>Fetching all pages\<close>

lemma after_fetch_test_pager:
  "after_fetch (test_pager n key loader loaded) key' = test_pager n key' loader True"
  by (simp add: after_fetch_def test_pager_def)

lemma test_pager_simps [simp]:
  "pageSize (test_pager n key loader loaded) = n"
  "nextPageKey (test_pager n key loader loaded) = key"
  "nextPageLoader (test_pager n key loader loaded) = Some loader"
  "once_consistent (test_pager n key loader loaded)"
  "IsAllLoaded (test_pager n key loader loaded) \<longleftrightarrow> key = [] \<and> loaded"
  by (simp_all add: test_pager_def once_consistent_def IsAllLoaded_def)





lemma linux_amd64_int_simps [simp]:
  "elemSize linux_amd64_int = 8"
  "maxAlloc linux_amd64_int = 281474976710656"
  by (simp_all add: linux_amd64_int_def)









section \<open>After the last page\<close>

lemma run_calls_loaded:
  "IsAllLoaded p \<Longrightarrow> run_calls rt cs p l = Some (map (idle_outcome rt p) cs, p, l)"
proof (induction cs)
  case Nil
  show ?case by simp
next
  case (Cons c cs)
  then show ?case
    by (cases c) (simp_all add: Next_loaded All_loaded)
qed

text \<open>
  Claim C10. Once a pager is fully loaded it stays so: whatever calls of \<open>Next\<close> and
  \<open>All\<close> follow, each call returns no item and no error (a call of \<open>All\<close> panics where
  the slice cannot be made), the pager is left as it is, so it is still fully loaded,
  its flag is still set and its key still empty, and the loader's state is the one
  before the calls: the loader is not called.
\<close>

theorem all_loaded_absorbing:
  assumes "IsAllLoaded p"
  shows "run_calls rt cs p l = Some (map (idle_outcome rt p) cs, p, l) \<and>
         (case run_calls rt cs p l of
            None \<Rightarrow> False
          | Some (outs, p', l') \<Rightarrow>
              IsAllLoaded p' \<and> isFirstPageLoaded p' \<and> nextPageKey p' = [] \<and> l' = l)"
  using assms by (simp add: run_calls_loaded IsAllLoaded_def)

theorem all_loaded_absorbing_witness:
  "IsAllLoaded (test_pager 3 [] (recorded_three_pages ''no-error'') True) \<and>
   run_calls linux_amd64_int [CallNext (), CallAll (), CallNext ()]
       (test_pager 3 [] (recorded_three_pages ''no-error'') True)
       ((), [([], 3), (''second-page-key'', 3), (''third-page-key'', 3)]) =
     Some ([Return NilSlice None, Return (Slice []) None, Return NilSlice None],
           test_pager 3 [] (recorded_three_pages ''no-error'') True,
           ((), [([], 3), (''second-page-key'', 3), (''third-page-key'', 3)])) \<and>
   IsAllLoaded (test_pager MaxInt64 [] (recorded_three_pages ''no-error'') True) \<and>
   run_calls linux_amd64_int [CallNext (), CallAll (), CallNext ()]
       (test_pager MaxInt64 [] (recorded_three_pages ''no-error'') True) ((), []) =
     Some ([Return NilSlice None, Panic MakesliceCapOutOfRange, Return NilSlice None],
           test_pager MaxInt64 [] (recorded_three_pages ''no-error'') True, ((), []))"
proof -
  let ?p = "test_pager 3 [] (recorded_three_pages ''no-error'') True"
  let ?q = "test_pager MaxInt64 [] (recorded_three_pages ''no-error'') True"
  have h: "IsAllLoaded ?p" by simp
  have k: "IsAllLoaded ?q" by simp
  have a: "run_calls linux_amd64_int [CallNext (), CallAll (), CallNext ()] ?p
       ((), [([], 3), (''second-page-key'', 3), (''third-page-key'', 3)]) =
     Some ([Return NilSlice None, Return (Slice []) None, Return NilSlice None], ?p,
           ((), [([], 3), (''second-page-key'', 3), (''third-page-key'', 3)]))"
    using conjunct1 [OF all_loaded_absorbing [OF h, of linux_amd64_int
      "[CallNext (), CallAll (), CallNext ()]"
      "((), [([], 3), (''second-page-key'', 3), (''third-page-key'', 3)])"]]
    by simp
  have b: "run_calls linux_amd64_int [CallNext (), CallAll (), CallNext ()] ?q ((), []) =
     Some ([Return NilSlice None, Panic MakesliceCapOutOfRange, Return NilSlice None], ?q,
           ((), []))"
    using conjunct1 [OF all_loaded_absorbing [OF k, of linux_amd64_int
      "[CallNext (), CallAll (), CallNext ()]" "((), [])"]]
    by (simp add: MaxInt64_def)
  from h k a b show ?thesis by simp
qed

end
